theory Spec2Isabelle
  imports Main "HOL-Library.Sublist"
begin

text \<open>
  A model of the development proxy server: the navigation classifier, the HTML injector,
  the guard in front of the proxy, the proxy's response handler, the text scrubber, the
  session identity and the supervisor of the dev server process. The first part gives
  the definitions, each following the function of the server it stands for; the second
  part states and proves what the specification says about them.
\<close>

section \<open>JavaScript strings\<close>

text \<open>
  A JavaScript string is a finite sequence of UTF-16 code units. The server never does
  arithmetic on code units, it only compares them, so a code unit is modelled by its
  numeric value. A source literal is written \<open>js ''...''\<close>.
\<close>

type_synonym code_unit = nat
type_synonym jsstring = "code_unit list"

definition js :: "string \<Rightarrow> jsstring" where
  "js s = map of_char s"

text \<open>
  \<open>String.prototype.indexOf(pat)\<close>: the least position at which \<open>pat\<close> occurs, or
  \<open>None\<close> for JavaScript's \<open>-1\<close>. The empty pattern occurs at position 0.
\<close>

fun str_indexOf :: "'a list \<Rightarrow> 'a list \<Rightarrow> nat option" where
  "str_indexOf [] pat = (if pat = [] then Some 0 else None)"
| "str_indexOf (c # cs) pat =
     (if prefix pat (c # cs) then Some 0 else map_option Suc (str_indexOf cs pat))"

text \<open>\<open>String.prototype.includes(pat)\<close> and \<open>String.prototype.startsWith(pat)\<close>.\<close>

definition str_includes :: "'a list \<Rightarrow> 'a list \<Rightarrow> bool" where
  "str_includes s pat = (str_indexOf s pat \<noteq> None)"

definition startsWith :: "'a list \<Rightarrow> 'a list \<Rightarrow> bool" where
  "startsWith s pat = prefix pat s"

text \<open>
  \<open>String.prototype.replace(pat, rep)\<close> with a string pattern: only the first occurrence
  is replaced, and a string without occurrence is returned as it is. JavaScript expands
  \<open>$\<close>-patterns in \<open>rep\<close>; both replacement strings of the server are free of \<open>$\<close>
  (lemma \<open>replacements_dollar_free\<close> below), so \<open>rep\<close> is inserted literally.
\<close>

definition str_replace :: "'a list \<Rightarrow> 'a list \<Rightarrow> 'a list \<Rightarrow> 'a list" where
  "str_replace s pat rep =
     (case str_indexOf s pat of
        None \<Rightarrow> s
      | Some i \<Rightarrow> take i s @ rep @ drop (i + length pat) s)"

section \<open>HTML injection\<close>

text \<open>
  \<open>injectHeadTag\<close> of the proxy: the sentinel test, then the cascade over
  \<open></head>\<close>, \<open></body>\<close> and plain appending.
\<close>

definition sentinel :: jsstring where
  \<open>sentinel = js ''data-rofy="console-capture"''\<close>

definition tag :: jsstring where
  \<open>tag = js ''<script type="module" src="https://preview.rezzo.dev/js/reviewer.js" data-rofy="console-capture" defer></script>''\<close>

definition closeHead :: jsstring where
  "closeHead = js ''</head>''"

definition closeBody :: jsstring where
  "closeBody = js ''</body>''"

definition newline :: jsstring where
  "newline = [10]"

definition injectHeadTag :: "jsstring \<Rightarrow> jsstring" where
  "injectHeadTag html =
     (if str_includes html sentinel then html
      else if str_includes html closeHead then str_replace html closeHead (tag @ closeHead)
      else if str_includes html closeBody then str_replace html closeBody (tag @ closeBody)
      else html @ newline @ tag)"

section \<open>Navigation classifier\<close>

text \<open>
  An inbound request as the handlers read it: \<open>req.method\<close> (the field
  \<open>req_method\<close>), \<open>req.url\<close>,
  \<open>req.originalUrl\<close> and the header object. Node stores header names in lower case and
  delivers \<open>accept\<close>, \<open>host\<close> and the \<open>sec-fetch-*\<close> headers as one string each, so
  the header object is a map from names to strings; an absent header is \<open>None\<close>
  (JavaScript's \<open>undefined\<close>).
\<close>

record request =
  req_method :: jsstring
  url :: jsstring
  originalUrl :: jsstring
  headers :: "jsstring \<rightharpoonup> jsstring"

text \<open>\<open>String(v || "")\<close> for a header value \<open>v\<close>: \<open>undefined\<close> and \<open>""\<close> both give \<open>""\<close>.\<close>

definition str_or_empty :: "jsstring option \<Rightarrow> jsstring" where
  "str_or_empty v = (case v of None \<Rightarrow> [] | Some s \<Rightarrow> if s = [] then [] else s)"

definition isNavigationRequest :: "request \<Rightarrow> bool" where
  "isNavigationRequest req =
     (let h = headers req;
          accept = str_or_empty (h (js ''accept''));
          dest = str_or_empty (h (js ''sec-fetch-dest''));
          mode = str_or_empty (h (js ''sec-fetch-mode''));
          site = str_or_empty (h (js ''sec-fetch-site''))
      in req_method req = js ''GET''
         \<and> str_includes accept (js ''text/html'')
         \<and> dest = js ''document''
         \<and> mode = js ''navigate''
         \<and> (site = js ''none'' \<or> site = js ''same-origin'' \<or> site = js ''cross-site''))"

section \<open>Guard\<close>




section \<open>Response handler of the proxy\<close>

text \<open>
  The upstream response at the moment the \<open>proxyRes\<close> handler runs: the status code
  (\<open>number | undefined\<close>) and the header object, whose values are strings or, for
  repeated headers such as \<open>set-cookie\<close>, arrays of strings. The body arrives later, as
  \<open>data\<close> events carrying buffers (lists of bytes) and one \<open>end\<close> event.
\<close>

datatype header_value = Single jsstring | Multi "jsstring list"

type_synonym response_headers = "jsstring \<rightharpoonup> header_value"

type_synonym buffer = "nat list"

record upstream_response =
  statusCode :: "nat option"
  resHeaders :: response_headers

datatype stream_event = Data buffer | EndOfStream

text \<open>
  What the handler's calls do to the client response \<open>res\<close>, in order: the response head
  goes out with a status code and the header table of \<open>res\<close>, a chunk of the body is
  written (\<open>res.write\<close>), the response is ended without or with a last string
  (\<open>res.end\<close>), or a call throws. Header names are in lower case, as Node keeps them.
  The headers Node adds when it writes the head to the socket (\<open>date\<close>, \<open>connection\<close>,
  \<open>transfer-encoding\<close>) are not part of the table and not modelled; nor is it modelled
  that Node leaves out what is written as body under a status code that allows none.
\<close>

datatype error = RangeError

datatype effect =
    Head nat response_headers
  | WriteChunk buffer
  | EndEmpty
  | EndString jsstring
  | Throw error

text \<open>
  Where the handler stands after the response head: \<open>Piping\<close> after
  \<open>proxyRes.pipe(res)\<close>, \<open>Buffering chunks\<close> while the \<open>data\<close> listener collects the
  body, \<open>Finished\<close> when nothing listens to the upstream stream any more.
\<close>

datatype handler_state = Piping | Buffering "buffer list" | Finished

text \<open>\<open>proxyRes.statusCode || 200\<close>: \<open>undefined\<close> and \<open>0\<close> are falsy.\<close>

definition status_or_200 :: "nat option \<Rightarrow> nat" where
  "status_or_200 st = (case st of None \<Rightarrow> 200 | Some n \<Rightarrow> if n = 0 then 200 else n)"

text \<open>
  Node's \<open>res.writeHead(status, headers)\<close>. A status code outside 100..999 makes it throw
  a \<open>RangeError\<close> before anything is sent. Otherwise each header of the call is set on
  \<open>res\<close>, replacing a header of the same name set earlier, and the head goes out with
  the resulting table. \<open>headersSet\<close> is the table of \<open>res\<close> when the handler runs: the
  headers that the middleware before the proxy has set (in this server the \<open>cors\<close>
  middleware and Express itself).
\<close>

definition writeHead :: "response_headers \<Rightarrow> nat \<Rightarrow> response_headers \<Rightarrow> error + effect" where
  "writeHead headersSet status hs =
     (if status < 100 \<or> 999 < status then Inl RangeError
      else Inr (Head status (headersSet ++ hs)))"

text \<open>
  The header object of a rewritten document: a copy of the upstream's, without
  \<open>content-length\<close>, with \<open>content-type\<close> and \<open>cache-control\<close> set.
\<close>

definition rewrittenHeaders :: "response_headers \<Rightarrow> response_headers" where
  "rewrittenHeaders hs =
     (hs(js ''content-length'' := None))
       (js ''content-type'' \<mapsto> Single (js ''text/html; charset=utf-8''),
        js ''cache-control'' \<mapsto> Single (js ''no-store''))"

text \<open>
  The body of the \<open>proxyRes\<close> handler, run when the upstream's response head arrives.
  For \<open>/log-viewer.js\<close> it sets the status code 404 and ends the response, which sends
  the head with the table as it is. When \<open>writeHead\<close> throws, \<open>proxyRes.pipe(res)\<close> is
  not reached.
\<close>

definition proxyRes ::
  "response_headers \<Rightarrow> upstream_response \<Rightarrow> request \<Rightarrow> handler_state \<times> effect list" where
  "proxyRes headersSet up req =
     (if url req = js ''/log-viewer.js'' then (Finished, [Head 404 headersSet, EndEmpty])
      else if \<not> isNavigationRequest req
        then (case writeHead headersSet (status_or_200 (statusCode up)) (resHeaders up) of
                Inl e \<Rightarrow> (Finished, [Throw e])
              | Inr head \<Rightarrow> (Piping, [head]))
      else (Buffering [], []))"

text \<open>
  One event of the upstream stream. A piped chunk is written to the client when it
  arrives and the end of the stream ends the client response; the buffering listeners
  collect the chunks and, at the end, decode their concatenation, inject the tag and
  write head and body; when \<open>writeHead\<close> throws there, \<open>res.end\<close> is not reached.
  \<open>toString_utf8\<close> stands for Node's \<open>Buffer.toString("utf8")\<close>.
\<close>

fun onEvent ::
  "(buffer \<Rightarrow> jsstring) \<Rightarrow> response_headers \<Rightarrow> upstream_response \<Rightarrow> handler_state
     \<Rightarrow> stream_event \<Rightarrow> handler_state \<times> effect list" where
  "onEvent toString_utf8 headersSet up Piping (Data c) = (Piping, [WriteChunk c])"
| "onEvent toString_utf8 headersSet up Piping EndOfStream = (Finished, [EndEmpty])"
| "onEvent toString_utf8 headersSet up (Buffering chunks) (Data c) =
     (Buffering (chunks @ [c]), [])"
| "onEvent toString_utf8 headersSet up (Buffering chunks) EndOfStream =
     (let body = injectHeadTag (toString_utf8 (concat chunks))
      in case writeHead headersSet (status_or_200 (statusCode up))
                (rewrittenHeaders (resHeaders up)) of
           Inl e \<Rightarrow> (Finished, [Throw e])
         | Inr head \<Rightarrow> (Finished, [head, EndString body]))"
| "onEvent toString_utf8 headersSet up Finished ev = (Finished, [])"

fun onEvents ::
  "(buffer \<Rightarrow> jsstring) \<Rightarrow> response_headers \<Rightarrow> upstream_response \<Rightarrow> handler_state
     \<Rightarrow> stream_event list \<Rightarrow> effect list" where
  "onEvents toString_utf8 headersSet up st [] = []"
| "onEvents toString_utf8 headersSet up st (ev # evs) =
     (case onEvent toString_utf8 headersSet up st ev of
        (st', out) \<Rightarrow> out @ onEvents toString_utf8 headersSet up st' evs)"

text \<open>
  What has happened to the client response once the handler has run and the given
  events of the upstream stream have been handled.
\<close>

definition respond ::
  "(buffer \<Rightarrow> jsstring) \<Rightarrow> response_headers \<Rightarrow> upstream_response \<Rightarrow> request
     \<Rightarrow> stream_event list \<Rightarrow> effect list" where
  "respond toString_utf8 headersSet up req evs =
     (case proxyRes headersSet up req of
        (st, out) \<Rightarrow> out @ onEvents toString_utf8 headersSet up st evs)"

text \<open>The status code of the response head that has gone out, if one has.\<close>

fun sentStatus :: "effect list \<Rightarrow> nat option" where
  "sentStatus [] = None"
| "sentStatus (Head st hs # es) = Some st"
| "sentStatus (WriteChunk c # es) = sentStatus es"
| "sentStatus (EndEmpty # es) = sentStatus es"
| "sentStatus (EndString body # es) = sentStatus es"
| "sentStatus (Throw e # es) = sentStatus es"

section \<open>Text scrubber\<close>

text \<open>
  \<open>text.split("\n")\<close>: the pieces between the line feeds; the result is never empty.
  \<open>parts.join(sep)\<close>.
\<close>

fun split_on :: "'a \<Rightarrow> 'a list \<Rightarrow> 'a list \<Rightarrow> 'a list list" where
  "split_on sep cur [] = [cur]"
| "split_on sep cur (c # cs) =
     (if c = sep then cur # split_on sep [] cs else split_on sep (cur @ [c]) cs)"

definition split_lines :: "jsstring \<Rightarrow> jsstring list" where
  "split_lines s = split_on 10 [] s"

fun join :: "'a list \<Rightarrow> 'a list list \<Rightarrow> 'a list" where
  "join sep [] = []"
| "join sep [x] = x"
| "join sep (x # y # ys) = x @ sep @ join sep (y # ys)"

text \<open>
  The character classes of the two regular expressions: \<open>\s\<close> is JavaScript's white
  space and line terminators, \<open>\d\<close> the ASCII digits.
\<close>

definition isSpace :: "code_unit \<Rightarrow> bool" where
  "isSpace c \<longleftrightarrow>
     c \<in> {9, 10, 11, 12, 13, 32, 160, 5760, 8232, 8233, 8239, 8287, 12288, 65279}
     \<or> (8192 \<le> c \<and> c \<le> 8202)"

definition isDigit :: "code_unit \<Rightarrow> bool" where
  "isDigit c \<longleftrightarrow> 48 \<le> c \<and> c \<le> 57"

text \<open>
  \<open>/^\s*\d+\s*\|/.test(l)\<close> and \<open>/^\s*>/.test(l)\<close>. White space, digits, \<open>|\<close> and \<open>>\<close>
  are disjoint classes, so the longest run of each is the only way to match.
\<close>

definition numberedLine :: "jsstring \<Rightarrow> bool" where
  "numberedLine l =
     (let afterSpace = dropWhile isSpace l;
          digits = takeWhile isDigit afterSpace;
          afterDigits = dropWhile isSpace (dropWhile isDigit afterSpace)
      in digits \<noteq> [] \<and> startsWith afterDigits (js ''|''))"

definition quotedLine :: "jsstring \<Rightarrow> bool" where
  "quotedLine l = startsWith (dropWhile isSpace l) (js ''>'')"

definition codeframeLine :: "jsstring \<Rightarrow> bool" where
  "codeframeLine l \<longleftrightarrow> numberedLine l \<or> quotedLine l"

text \<open>
  The argument of \<open>shrinkError\<close> is a string or an \<open>Error\<close>; of an \<open>Error\<close> the function
  reads \<open>rawError.stack\<close> and, when that is missing or empty, \<open>String(rawError)\<close>.
\<close>

datatype rawError = RawString jsstring | RawErrorObject "jsstring option" jsstring

text \<open>
  \<open>shrinkError\<close>. The source also computes \<open>hints\<close>, which the returned value does not
  use. \<open>filter(Boolean)\<close> keeps the non-empty ones of the two parts.
\<close>

definition shrinkError :: "rawError \<Rightarrow> jsstring" where
  "shrinkError rawError =
     (let text = (case rawError of
                    RawString s \<Rightarrow> s
                  | RawErrorObject stack str \<Rightarrow>
                      (case stack of None \<Rightarrow> str | Some st \<Rightarrow> if st = [] then str else st));
          lines = split_lines text;
          firstLine = (case lines of [] \<Rightarrow> [] | l # _ \<Rightarrow> l);
          codeframe = join newline (filter codeframeLine lines)
      in join (newline @ newline) (filter (\<lambda>part. part \<noteq> []) [firstLine, codeframe]))"

text \<open>
  The scrubber as the specification words it, for comparison: the first line, and when
  there are codeframe lines, a blank line and the codeframe block after it.
\<close>

definition scrub_spec :: "jsstring \<Rightarrow> jsstring" where
  "scrub_spec raw =
     (let lines = split_lines raw;
          firstLine = (case lines of [] \<Rightarrow> [] | l # _ \<Rightarrow> l);
          frame = filter codeframeLine lines
      in if frame = [] then firstLine else firstLine @ newline @ newline @ join newline frame)"

section \<open>Session identity\<close>

text \<open>
  The \<open>previewHost\<close> variable (\<open>string | null\<close>) and the middleware that sets it.
  \<open>!previewHost\<close> holds for \<open>null\<close> and for the empty string.
\<close>

definition previewHostMiddleware :: "jsstring option \<Rightarrow> request \<Rightarrow> jsstring option" where
  "previewHostMiddleware previewHost req =
     (if previewHost = None \<or> previewHost = Some []
      then Some (str_or_empty (headers req (js ''host'')))
      else previewHost)"

text \<open>
  The variable after the given requests have passed through the middleware, in order.
  These are the requests of the process that reach it: a request that an earlier
  middleware answers or fails (the \<open>cors\<close> middleware answers \<open>OPTIONS\<close> preflights, a
  body that does not parse goes to the error handlers) and a protocol upgrade do not
  run it.
\<close>

definition previewHostAfter :: "request list \<Rightarrow> jsstring option" where
  "previewHostAfter reqs = foldl previewHostMiddleware None reqs"

section \<open>Process supervisor\<close>

text \<open>
  The supervisor's state is the variable \<open>viteProcess\<close>. To speak about the order of
  signals and spawns the model records them in a trace; a child process is named by the
  number of \<open>spawn\<close> calls before its own.
\<close>

datatype signal = SIGTERM

datatype process_event = Spawn nat | Kill nat signal

record supervisor =
  viteProcess :: "nat option"
  spawned :: nat
  trace :: "process_event list"

definition startDevServer :: "supervisor \<Rightarrow> supervisor" where
  "startDevServer s =
     s\<lparr>viteProcess := Some (spawned s),
       spawned := Suc (spawned s),
       trace := trace s @ [Spawn (spawned s)]\<rparr>"

definition stopDevServer :: "supervisor \<Rightarrow> supervisor" where
  "stopDevServer s =
     (case viteProcess s of
        Some p \<Rightarrow> s\<lparr>viteProcess := None, trace := trace s @ [Kill p SIGTERM]\<rparr>
      | None \<Rightarrow> s)"

definition restartDevServer :: "supervisor \<Rightarrow> supervisor" where
  "restartDevServer s = startDevServer (stopDevServer s)"

text \<open>The state at module load, and the boot sequence, which starts the child in development.\<close>

definition initial :: supervisor where
  "initial = \<lparr>viteProcess = None, spawned = 0, trace = []\<rparr>"

definition boot :: "jsstring \<Rightarrow> supervisor" where
  "boot env = (if env = js ''development'' then startDevServer initial else initial)"

text \<open>
  After boot the only caller of the supervisor is the \<open>/api/restart-frontend\<close> route:
  the state of a server booted in \<open>env\<close> that has served \<open>n\<close> restart requests.
\<close>

definition serverState :: "jsstring \<Rightarrow> nat \<Rightarrow> supervisor" where
  "serverState env n = (restartDevServer ^^ n) (boot env)"

text \<open>The processes spawned and not signalled since, read off a trace.\<close>

fun after_event :: "nat set \<Rightarrow> process_event \<Rightarrow> nat set" where
  "after_event A (Spawn p) = insert p A"
| "after_event A (Kill p sig) = A - {p}"

definition active :: "process_event list \<Rightarrow> nat set" where
  "active tr = foldl after_event {} tr"

text \<open>
  What holds in every state the server reaches: the processes not yet signalled are the
  one in \<open>viteProcess\<close>, if any, and that one was spawned earlier.
\<close>

definition supervised :: "supervisor \<Rightarrow> bool" where
  "supervised s \<longleftrightarrow>
     active (trace s) = set_option (viteProcess s)
     \<and> (\<forall>p. viteProcess s = Some p \<longrightarrow> p < spawned s)"

section \<open>Facts about searching and replacing\<close>

lemma str_indexOf_SomeD:
  "str_indexOf s pat = Some i \<Longrightarrow>
     i \<le> length s \<and> prefix pat (drop i s) \<and> (\<forall>j<i. \<not> prefix pat (drop j s))"
proof (induction s arbitrary: i)
  case Nil
  then show ?case by (simp split: if_splits)
next
  case (Cons c cs)
  show ?case
  proof (cases "prefix pat (c # cs)")
    case True
    with Cons.prems show ?thesis by simp
  next
    case False
    with Cons.prems obtain k where k: "str_indexOf cs pat = Some k" and i: "i = Suc k"
      by auto
    from Cons.IH [OF k] False i show ?thesis
      by (auto simp: less_Suc_eq_0_disj)
  qed
qed

lemma str_indexOf_NoneD:
  "str_indexOf s pat = None \<Longrightarrow> \<not> prefix pat (drop j s)"
proof (induction s arbitrary: j)
  case Nil
  then show ?case by (simp split: if_splits)
next
  case (Cons c cs)
  then show ?case by (cases j) (auto split: if_splits)
qed

lemma str_includes_iff:
  "str_includes s pat \<longleftrightarrow> (\<exists>pre post. s = pre @ pat @ post)"
proof
  assume "str_includes s pat"
  then obtain i where "str_indexOf s pat = Some i"
    by (auto simp: str_includes_def)
  then have "prefix pat (drop i s)"
    by (simp add: str_indexOf_SomeD)
  then obtain post where "drop i s = pat @ post"
    by (auto simp: prefix_def)
  then have "s = take i s @ pat @ post"
    by (metis append_take_drop_id)
  then show "\<exists>pre post. s = pre @ pat @ post"
    by blast
next
  assume "\<exists>pre post. s = pre @ pat @ post"
  then obtain pre post where s: "s = pre @ pat @ post"
    by blast
  then have "prefix pat (drop (length pre) s)"
    by simp
  then show "str_includes s pat"
    unfolding str_includes_def using str_indexOf_NoneD by blast
qed

lemma str_includes_appendI:
  "str_includes b pat \<Longrightarrow> str_includes (a @ b @ c) pat"
proof -
  assume "str_includes b pat"
  then obtain pre post where "b = pre @ pat @ post"
    by (auto simp: str_includes_iff)
  then have "a @ b @ c = (a @ pre) @ pat @ (post @ c)"
    by simp
  then show ?thesis
    unfolding str_includes_iff by blast
qed

text \<open>
  Replacing at the first occurrence, stated on the decomposition of the string: the part
  before the occurrence and the part after it are kept, and no occurrence starts earlier.
\<close>

lemma str_replace_first:
  assumes "str_includes s pat"
  shows "\<exists>pre post. s = pre @ pat @ post
           \<and> (\<forall>pre' post'. s = pre' @ pat @ post' \<longrightarrow> length pre \<le> length pre')
           \<and> str_replace s pat rep = pre @ rep @ post"
proof -
  from assms obtain i where i: "str_indexOf s pat = Some i"
    by (auto simp: str_includes_def)
  note d = str_indexOf_SomeD [OF i]
  from d obtain post where post: "drop i s = pat @ post"
    by (auto simp: prefix_def)
  have s: "s = take i s @ pat @ post"
    using post by (metis append_take_drop_id)
  have "drop (i + length pat) s = drop (length pat) (drop i s)"
    by (simp add: add.commute)
  then have rest: "drop (i + length pat) s = post"
    using post by simp
  have least: "length (take i s) \<le> length pre'" if "s = pre' @ pat @ post'" for pre' post'
  proof (rule ccontr)
    assume "\<not> length (take i s) \<le> length pre'"
    with d have "length pre' < i"
      by simp
    with d have "\<not> prefix pat (drop (length pre') s)"
      by blast
    with that show False
      by simp
  qed
  have "str_replace s pat rep = take i s @ rep @ post"
    by (simp add: str_replace_def i rest)
  with s least show ?thesis
    by blast
qed

lemma str_replace_absent:
  "\<not> str_includes s pat \<Longrightarrow> str_replace s pat rep = s"
  by (simp add: str_includes_def str_replace_def)

section \<open>Facts about the injected tag\<close>

lemma tag_includes_sentinel: "str_includes tag sentinel"
proof -
  have \<open>tag = js ''<script type="module" src="https://preview.rezzo.dev/js/reviewer.js" ''
          @ sentinel @ js '' defer></script>''\<close>
    by (simp add: tag_def sentinel_def js_def)
  then show ?thesis
    unfolding str_includes_iff by blast
qed

lemma replacements_dollar_free:
  "of_char (CHR ''$'') \<notin> set (tag @ closeHead)"
  "of_char (CHR ''$'') \<notin> set (tag @ closeBody)"
  by (simp_all add: tag_def closeHead_def closeBody_def js_def)

lemma injectHeadTag_includes_sentinel:
  "str_includes (injectHeadTag html) sentinel"
proof -
  have rep: "str_includes (str_replace html pat (tag @ pat)) sentinel"
    if "str_includes html pat" for pat
  proof -
    from str_replace_first [OF that, of "tag @ pat"]
    obtain pre post where "str_replace html pat (tag @ pat) = pre @ tag @ (pat @ post)"
      by auto
    then show ?thesis
      using str_includes_appendI [OF tag_includes_sentinel] by simp
  qed
  have app: "str_includes (html @ newline @ tag) sentinel"
    using str_includes_appendI [OF tag_includes_sentinel, of "html @ newline" "[]"] by simp
  show ?thesis
    using rep app by (simp add: injectHeadTag_def)
qed

section \<open>Claims about the HTML injector\<close>

text \<open>
  C2. The injector is idempotent: injecting into the result of an injection returns that
  result unchanged, for every input string, so the tag is never inserted a second time.
\<close>

theorem injectHeadTag_idempotent:
  "injectHeadTag (injectHeadTag html) = injectHeadTag html"
  using injectHeadTag_includes_sentinel [of html]
  by (simp add: injectHeadTag_def [of "injectHeadTag html"])

text \<open>
  C4. For an input without the sentinel the tag is inserted by the cascade: when
  \<open></head>\<close> occurs, immediately before its first occurrence; otherwise, when
  \<open></body>\<close> occurs, immediately before its first occurrence; otherwise the input is
  followed by a newline and the tag. The text around the insertion point is kept as it
  is, and nothing is assumed about the input being HTML.
\<close>

theorem injectHeadTag_cascade:
  assumes "\<not> str_includes html sentinel"
  shows "(str_includes html closeHead \<longrightarrow>
            (\<exists>pre post. html = pre @ closeHead @ post
               \<and> (\<forall>pre' post'. html = pre' @ closeHead @ post' \<longrightarrow> length pre \<le> length pre')
               \<and> injectHeadTag html = pre @ tag @ closeHead @ post))
       \<and> (\<not> str_includes html closeHead \<and> str_includes html closeBody \<longrightarrow>
            (\<exists>pre post. html = pre @ closeBody @ post
               \<and> (\<forall>pre' post'. html = pre' @ closeBody @ post' \<longrightarrow> length pre \<le> length pre')
               \<and> injectHeadTag html = pre @ tag @ closeBody @ post))
       \<and> (\<not> str_includes html closeHead \<and> \<not> str_includes html closeBody \<longrightarrow>
            injectHeadTag html = html @ newline @ tag)"
proof (intro conjI impI)
  assume "str_includes html closeHead"
  with assms have "injectHeadTag html = str_replace html closeHead (tag @ closeHead)"
    by (simp add: injectHeadTag_def)
  with str_replace_first [OF \<open>str_includes html closeHead\<close>, of "tag @ closeHead"]
  show "\<exists>pre post. html = pre @ closeHead @ post
          \<and> (\<forall>pre' post'. html = pre' @ closeHead @ post' \<longrightarrow> length pre \<le> length pre')
          \<and> injectHeadTag html = pre @ tag @ closeHead @ post"
    by simp
next
  assume b: "\<not> str_includes html closeHead \<and> str_includes html closeBody"
  with assms have "injectHeadTag html = str_replace html closeBody (tag @ closeBody)"
    by (simp add: injectHeadTag_def)
  with b str_replace_first [of html closeBody "tag @ closeBody"]
  show "\<exists>pre post. html = pre @ closeBody @ post
          \<and> (\<forall>pre' post'. html = pre' @ closeBody @ post' \<longrightarrow> length pre \<le> length pre')
          \<and> injectHeadTag html = pre @ tag @ closeBody @ post"
    by simp
next
  assume "\<not> str_includes html closeHead \<and> \<not> str_includes html closeBody"
  with assms show "injectHeadTag html = html @ newline @ tag"
    by (simp add: injectHeadTag_def)
qed

text \<open>
  The three documents of the specification's examples, one for each branch of the
  cascade.
\<close>

theorem injectHeadTag_cascade_witness:
  "(\<exists>pre post. js ''<html><head></head><body></body></html>'' = pre @ closeHead @ post
       \<and> injectHeadTag (js ''<html><head></head><body></body></html>'')
           = pre @ tag @ closeHead @ post)
   \<and> (\<exists>pre post. js ''<html><body></body></html>'' = pre @ closeBody @ post
       \<and> injectHeadTag (js ''<html><body></body></html>'') = pre @ tag @ closeBody @ post)
   \<and> injectHeadTag (js ''plain text, no tags'') = js ''plain text, no tags'' @ newline @ tag"
proof -
  have h1: "\<not> str_includes (js ''<html><head></head><body></body></html>'') sentinel"
    and h2: "str_includes (js ''<html><head></head><body></body></html>'') closeHead"
    by (simp_all add: str_includes_def js_def sentinel_def closeHead_def)
  have b1: "\<not> str_includes (js ''<html><body></body></html>'') sentinel"
    and b2: "\<not> str_includes (js ''<html><body></body></html>'') closeHead"
    and b3: "str_includes (js ''<html><body></body></html>'') closeBody"
    by (simp_all add: str_includes_def js_def sentinel_def closeHead_def closeBody_def)
  have p1: "\<not> str_includes (js ''plain text, no tags'') sentinel"
    and p2: "\<not> str_includes (js ''plain text, no tags'') closeHead"
    and p3: "\<not> str_includes (js ''plain text, no tags'') closeBody"
    by (simp_all add: str_includes_def js_def sentinel_def closeHead_def closeBody_def)
  from injectHeadTag_cascade [OF h1] h2
  have "\<exists>pre post. js ''<html><head></head><body></body></html>'' = pre @ closeHead @ post
          \<and> injectHeadTag (js ''<html><head></head><body></body></html>'')
              = pre @ tag @ closeHead @ post"
    by blast
  moreover from injectHeadTag_cascade [OF b1] b2 b3
  have "\<exists>pre post. js ''<html><body></body></html>'' = pre @ closeBody @ post
          \<and> injectHeadTag (js ''<html><body></body></html>'') = pre @ tag @ closeBody @ post"
    by blast
  moreover from injectHeadTag_cascade [OF p1] p2 p3
  have "injectHeadTag (js ''plain text, no tags'') = js ''plain text, no tags'' @ newline @ tag"
    by blast
  ultimately show ?thesis
    by blast
qed

text \<open>
  C10. The sentinel test is a test for a substring: an input in which the sentinel text
  occurs anywhere, whatever stands before and after it and however it got there, is
  returned unchanged, so no script tag is added to it.
\<close>

theorem injectHeadTag_sentinel_anywhere:
  "injectHeadTag (pre @ sentinel @ post) = pre @ sentinel @ post"
proof -
  have "str_includes (pre @ sentinel @ post) sentinel"
    unfolding str_includes_iff by blast
  then show ?thesis
    by (simp add: injectHeadTag_def)
qed

section \<open>Claims about the navigation classifier\<close>

lemma str_or_empty_eq_iff:
  "v \<noteq> [] \<Longrightarrow> str_or_empty h = v \<longleftrightarrow> h = Some v"
  by (auto simp: str_or_empty_def split: option.splits)

lemma str_includes_empty_iff:
  "str_includes [] pat \<longleftrightarrow> pat = []"
  by (simp add: str_includes_def)

lemma str_includes_str_or_empty:
  "pat \<noteq> [] \<Longrightarrow>
     str_includes (str_or_empty h) pat \<longleftrightarrow> (\<exists>v. h = Some v \<and> str_includes v pat)"
  by (auto simp: str_or_empty_def str_includes_empty_iff split: option.splits)

text \<open>
  C1. The classifier answers true exactly when the method is \<open>GET\<close>, the \<open>Accept\<close>
  header is present and contains \<open>text/html\<close>, \<open>Sec-Fetch-Dest\<close> is \<open>document\<close>,
  \<open>Sec-Fetch-Mode\<close> is \<open>navigate\<close> and \<open>Sec-Fetch-Site\<close> is \<open>none\<close>, \<open>same-origin\<close> or
  \<open>cross-site\<close>; a request that lacks one of the four headers is not a navigation.
\<close>

theorem isNavigationRequest_iff:
  "(isNavigationRequest req \<longleftrightarrow>
      req_method req = js ''GET''
      \<and> (\<exists>accept pre post. headers req (js ''accept'') = Some accept
            \<and> accept = pre @ js ''text/html'' @ post)
      \<and> headers req (js ''sec-fetch-dest'') = Some (js ''document'')
      \<and> headers req (js ''sec-fetch-mode'') = Some (js ''navigate'')
      \<and> (headers req (js ''sec-fetch-site'') = Some (js ''none'')
          \<or> headers req (js ''sec-fetch-site'') = Some (js ''same-origin'')
          \<or> headers req (js ''sec-fetch-site'') = Some (js ''cross-site'')))
   \<and> (headers req (js ''accept'') = None
        \<or> headers req (js ''sec-fetch-dest'') = None
        \<or> headers req (js ''sec-fetch-mode'') = None
        \<or> headers req (js ''sec-fetch-site'') = None
      \<longrightarrow> \<not> isNavigationRequest req)"
proof -
  have ne: "js ''text/html'' \<noteq> []" "js ''document'' \<noteq> []" "js ''navigate'' \<noteq> []"
    "js ''none'' \<noteq> []" "js ''same-origin'' \<noteq> []" "js ''cross-site'' \<noteq> []"
    by (simp_all add: js_def)
  have main: "isNavigationRequest req \<longleftrightarrow>
      req_method req = js ''GET''
      \<and> (\<exists>accept pre post. headers req (js ''accept'') = Some accept
            \<and> accept = pre @ js ''text/html'' @ post)
      \<and> headers req (js ''sec-fetch-dest'') = Some (js ''document'')
      \<and> headers req (js ''sec-fetch-mode'') = Some (js ''navigate'')
      \<and> (headers req (js ''sec-fetch-site'') = Some (js ''none'')
          \<or> headers req (js ''sec-fetch-site'') = Some (js ''same-origin'')
          \<or> headers req (js ''sec-fetch-site'') = Some (js ''cross-site''))"
    unfolding isNavigationRequest_def Let_def
    by (auto simp add: str_or_empty_eq_iff ne str_includes_str_or_empty str_includes_iff)
  then show ?thesis
    by auto
qed

text \<open>
  The navigation of the specification's example is classified as one; the same request
  without its \<open>Sec-Fetch-Dest\<close> header is not.
\<close>

theorem isNavigationRequest_iff_witness:
  "isNavigationRequest
     \<lparr>req_method = js ''GET'', url = js ''/'', originalUrl = js ''/'',
      headers = [js ''accept'' \<mapsto> js ''text/html'',
                 js ''sec-fetch-dest'' \<mapsto> js ''document'',
                 js ''sec-fetch-mode'' \<mapsto> js ''navigate'',
                 js ''sec-fetch-site'' \<mapsto> js ''same-origin'']\<rparr>
   \<and> \<not> isNavigationRequest
     \<lparr>req_method = js ''GET'', url = js ''/'', originalUrl = js ''/'',
      headers = [js ''accept'' \<mapsto> js ''text/html'',
                 js ''sec-fetch-mode'' \<mapsto> js ''navigate'',
                 js ''sec-fetch-site'' \<mapsto> js ''same-origin'']\<rparr>"
proof -
  have "js ''text/html'' = [] @ js ''text/html'' @ []"
    by simp
  then have "\<exists>pre post. js ''text/html'' = pre @ js ''text/html'' @ post"
    by blast
  then show ?thesis
    using isNavigationRequest_iff
      [of "\<lparr>req_method = js ''GET'', url = js ''/'', originalUrl = js ''/'',
            headers = [js ''accept'' \<mapsto> js ''text/html'',
                       js ''sec-fetch-dest'' \<mapsto> js ''document'',
                       js ''sec-fetch-mode'' \<mapsto> js ''navigate'',
                       js ''sec-fetch-site'' \<mapsto> js ''same-origin'']\<rparr>"]
      isNavigationRequest_iff
      [of "\<lparr>req_method = js ''GET'', url = js ''/'', originalUrl = js ''/'',
            headers = [js ''accept'' \<mapsto> js ''text/html'',
                       js ''sec-fetch-mode'' \<mapsto> js ''navigate'',
                       js ''sec-fetch-site'' \<mapsto> js ''same-origin'']\<rparr>"]
    by (simp add: js_def)
qed

section \<open>Claims about the guard\<close>

lemma startsWith_iff:
  "startsWith s pat \<longleftrightarrow> (\<exists>rest. s = pat @ rest)"
  by (simp add: startsWith_def prefix_def)






section \<open>Claims about the response handler\<close>

lemma onEvents_Finished:
  "onEvents f hset up Finished evs = []"
  by (induction evs) simp_all

lemma onEvents_Piping:
  "onEvents f hset up Piping (map Data chunks) = map WriteChunk chunks"
  "onEvents f hset up Piping (map Data chunks @ [EndOfStream]) = map WriteChunk chunks @ [EndEmpty]"
  by (induction chunks) simp_all

lemma onEvents_Buffering:
  "onEvents f hset up (Buffering acc) (map Data chunks @ [EndOfStream]) =
     (case writeHead hset (status_or_200 (statusCode up)) (rewrittenHeaders (resHeaders up)) of
        Inl e \<Rightarrow> [Throw e]
      | Inr head \<Rightarrow> [head, EndString (injectHeadTag (f (concat acc @ concat chunks)))])"
  by (induction chunks arbitrary: acc) (simp_all split: sum.splits)


lemma passed_table:
  "hs k = Some v \<Longrightarrow> (hset ++ hs) k = Some v"
  "hs k = None \<Longrightarrow> (hset ++ hs) k = hset k"
  by (simp_all add: map_add_def)

lemma writeHead_status:
  "100 \<le> n \<Longrightarrow> n \<le> 999 \<Longrightarrow>
     writeHead hset (status_or_200 (Some n)) hs = Inr (Head n (hset ++ hs))"
  "writeHead hset (status_or_200 None) hs = Inr (Head 200 (hset ++ hs))"
  "writeHead hset (status_or_200 (Some 0)) hs = Inr (Head 200 (hset ++ hs))"
  "n \<noteq> 0 \<Longrightarrow> n < 100 \<or> 999 < n \<Longrightarrow>
     writeHead hset (status_or_200 (Some n)) hs = Inl RangeError"
  by (auto simp: writeHead_def status_or_200_def)

text \<open>
  An upstream status code that is neither zero nor between 100 and 999 is refused by
  \<open>writeHead\<close>: the handler throws and the client response gets neither head nor body
  from it.
\<close>

lemma respond_status_refused:
  fixes decode :: "buffer \<Rightarrow> jsstring"
  assumes "url req \<noteq> js ''/log-viewer.js''"
    and "statusCode up = Some n" and "n \<noteq> 0" and "n < 100 \<or> 999 < n"
  shows "\<not> isNavigationRequest req \<Longrightarrow> respond decode hset up req evs = [Throw RangeError]"
    and "isNavigationRequest req \<Longrightarrow>
      respond decode hset up req (map Data chunks @ [EndOfStream]) = [Throw RangeError]"
  using assms
  by (simp_all add: respond_def proxyRes_def writeHead_status onEvents_Finished
      onEvents_Buffering)




text \<open>
  C6, as stated, fails: the response to a request for \<open>/log-viewer.js\<close>, which is not a
  navigation, is answered with an empty 404 whatever the upstream sent; a response whose
  status code is \<open>0\<close> is passed on with status 200; and the head carries the headers set
  on the response before the handler ran, which the upstream did not send.
\<close>

theorem passthrough_counterexample:
  "\<not> isNavigationRequest
       \<lparr>req_method = js ''GET'', url = js ''/log-viewer.js'',
        originalUrl = js ''/log-viewer.js'',
        headers = [js ''accept'' \<mapsto> js ''*/*'', js ''sec-fetch-dest'' \<mapsto> js ''script'']\<rparr>
   \<and> respond id Map.empty
        \<lparr>statusCode = Some 200,
         resHeaders = [js ''content-type'' \<mapsto> Single (js ''text/javascript'')]\<rparr>
        \<lparr>req_method = js ''GET'', url = js ''/log-viewer.js'',
         originalUrl = js ''/log-viewer.js'',
         headers = [js ''accept'' \<mapsto> js ''*/*'', js ''sec-fetch-dest'' \<mapsto> js ''script'']\<rparr>
        [Data (js ''let a;''), EndOfStream]
      = [Head 404 Map.empty, EndEmpty]
   \<and> \<not> isNavigationRequest
       \<lparr>req_method = js ''GET'', url = js ''/api/items'', originalUrl = js ''/api/items'',
        headers = [js ''accept'' \<mapsto> js ''application/json'']\<rparr>
   \<and> sentStatus
        (respond id Map.empty \<lparr>statusCode = Some 0, resHeaders = Map.empty\<rparr>
           \<lparr>req_method = js ''GET'', url = js ''/api/items'', originalUrl = js ''/api/items'',
            headers = [js ''accept'' \<mapsto> js ''application/json'']\<rparr>
           [Data (js ''[]''), EndOfStream])
      = Some 200
   \<and> respond id [js ''access-control-allow-origin'' \<mapsto> Single (js ''*'')]
        \<lparr>statusCode = Some 200, resHeaders = Map.empty\<rparr>
        \<lparr>req_method = js ''GET'', url = js ''/api/items'', originalUrl = js ''/api/items'',
         headers = [js ''accept'' \<mapsto> js ''application/json'']\<rparr>
        [Data (js ''[]''), EndOfStream]
      = [Head 200 [js ''access-control-allow-origin'' \<mapsto> Single (js ''*'')],
         WriteChunk (js ''[]''), EndEmpty]"
  by (simp add: respond_def proxyRes_def isNavigationRequest_def str_or_empty_def
      str_includes_def status_or_200_def writeHead_def js_def)

text \<open>
  C6, amended. A response for the URL \<open>/log-viewer.js\<close> is replaced by an empty 404.
  For any other request that is not a navigation, the head goes out with the upstream's
  status code when that is between 100 and 999, and with 200 when it is absent or zero;
  the head's table has every header of the upstream with the upstream's value, and
  beside them the headers set on the response before the handler ran whose names the
  upstream does not use. Every chunk of the body is written as it arrives, unchanged and
  in order, so that after any part of the stream the client has been written all of it,
  and the end of the stream ends the response.
\<close>

theorem passthrough_response:
  "(url req = js ''/log-viewer.js'' \<longrightarrow>
      respond decode hset up req evs = [Head 404 hset, EndEmpty])
   \<and> (url req \<noteq> js ''/log-viewer.js'' \<and> \<not> isNavigationRequest req \<longrightarrow>
        (\<forall>k v. resHeaders up k = Some v \<longrightarrow> (hset ++ resHeaders up) k = Some v)
      \<and> (\<forall>k. resHeaders up k = None \<longrightarrow> (hset ++ resHeaders up) k = hset k)
      \<and> (\<forall>n. statusCode up = Some n \<and> 100 \<le> n \<and> n \<le> 999 \<longrightarrow>
            respond decode hset up req (map Data chunks)
              = Head n (hset ++ resHeaders up) # map WriteChunk chunks
          \<and> respond decode hset up req (map Data chunks @ [EndOfStream])
              = Head n (hset ++ resHeaders up) # map WriteChunk chunks @ [EndEmpty])
      \<and> (statusCode up = None \<or> statusCode up = Some 0 \<longrightarrow>
            respond decode hset up req (map Data chunks)
              = Head 200 (hset ++ resHeaders up) # map WriteChunk chunks
          \<and> respond decode hset up req (map Data chunks @ [EndOfStream])
              = Head 200 (hset ++ resHeaders up) # map WriteChunk chunks @ [EndEmpty]))"
proof -
  have lv: "url req = js ''/log-viewer.js'' \<longrightarrow>
      respond decode hset up req evs = [Head 404 hset, EndEmpty]"
    by (simp add: respond_def proxyRes_def onEvents_Finished)
  have h1: "\<forall>k v. resHeaders up k = Some v \<longrightarrow> (hset ++ resHeaders up) k = Some v"
    by (simp add: passed_table)
  have h2: "\<forall>k. resHeaders up k = None \<longrightarrow> (hset ++ resHeaders up) k = hset k"
    by (simp add: passed_table)
  have rest: "(\<forall>n. statusCode up = Some n \<and> 100 \<le> n \<and> n \<le> 999 \<longrightarrow>
            respond decode hset up req (map Data chunks)
              = Head n (hset ++ resHeaders up) # map WriteChunk chunks
          \<and> respond decode hset up req (map Data chunks @ [EndOfStream])
              = Head n (hset ++ resHeaders up) # map WriteChunk chunks @ [EndEmpty])
      \<and> (statusCode up = None \<or> statusCode up = Some 0 \<longrightarrow>
            respond decode hset up req (map Data chunks)
              = Head 200 (hset ++ resHeaders up) # map WriteChunk chunks
          \<and> respond decode hset up req (map Data chunks @ [EndOfStream])
              = Head 200 (hset ++ resHeaders up) # map WriteChunk chunks @ [EndEmpty])"
    if a: "url req \<noteq> js ''/log-viewer.js'' \<and> \<not> isNavigationRequest req"
  proof -
    from a have start: "proxyRes hset up req =
       (case writeHead hset (status_or_200 (statusCode up)) (resHeaders up) of
          Inl e \<Rightarrow> (Finished, [Throw e])
        | Inr head \<Rightarrow> (Piping, [head]))"
      by (simp add: proxyRes_def)
    show ?thesis
      by (auto simp add: respond_def start writeHead_status onEvents_Piping onEvents_Finished)
  qed
  from lv h1 h2 rest show ?thesis
    by blast
qed

text \<open>
  A JSON response of the upstream, in two chunks, on a response that carries the
  \<open>cors\<close> header; and a script request for \<open>/log-viewer.js\<close>.
\<close>

theorem passthrough_response_witness:
  "respond id [js ''access-control-allow-origin'' \<mapsto> Single (js ''*'')]
     \<lparr>statusCode = Some 201,
      resHeaders = [js ''content-type'' \<mapsto> Single (js ''application/json'')]\<rparr>
     \<lparr>req_method = js ''POST'', url = js ''/api/items'', originalUrl = js ''/api/items'',
      headers = [js ''accept'' \<mapsto> js ''application/json'']\<rparr>
     (map Data [js ''[1,2'', js '',3]''] @ [EndOfStream])
   = Head 201
       ([js ''access-control-allow-origin'' \<mapsto> Single (js ''*'')]
          ++ [js ''content-type'' \<mapsto> Single (js ''application/json'')])
       # map WriteChunk [js ''[1,2'', js '',3]''] @ [EndEmpty]
   \<and> respond id Map.empty
       \<lparr>statusCode = Some 200, resHeaders = Map.empty\<rparr>
       \<lparr>req_method = js ''GET'', url = js ''/log-viewer.js'',
        originalUrl = js ''/log-viewer.js'', headers = Map.empty\<rparr>
       [Data (js ''let a;''), EndOfStream]
     = [Head 404 Map.empty, EndEmpty]"
proof -
  have nav: "\<not> isNavigationRequest
     \<lparr>req_method = js ''POST'', url = js ''/api/items'', originalUrl = js ''/api/items'',
      headers = [js ''accept'' \<mapsto> js ''application/json'']\<rparr>"
    by (simp add: isNavigationRequest_def js_def)
  have u: "url
     \<lparr>req_method = js ''POST'', url = js ''/api/items'', originalUrl = js ''/api/items'',
      headers = [js ''accept'' \<mapsto> js ''application/json'']\<rparr> \<noteq> js ''/log-viewer.js''"
    by (simp add: js_def)
  from passthrough_response
      [where req = "\<lparr>req_method = js ''POST'', url = js ''/api/items'',
              originalUrl = js ''/api/items'',
              headers = [js ''accept'' \<mapsto> js ''application/json'']\<rparr>"
         and hset = "[js ''access-control-allow-origin'' \<mapsto> Single (js ''*'')]"
         and up = "\<lparr>statusCode = Some 201,
              resHeaders = [js ''content-type'' \<mapsto> Single (js ''application/json'')]\<rparr>"
         and decode = id
         and chunks = "[js ''[1,2'', js '',3]'']"]
    nav u
  have 1: "respond id [js ''access-control-allow-origin'' \<mapsto> Single (js ''*'')]
     \<lparr>statusCode = Some 201,
      resHeaders = [js ''content-type'' \<mapsto> Single (js ''application/json'')]\<rparr>
     \<lparr>req_method = js ''POST'', url = js ''/api/items'', originalUrl = js ''/api/items'',
      headers = [js ''accept'' \<mapsto> js ''application/json'']\<rparr>
     (map Data [js ''[1,2'', js '',3]''] @ [EndOfStream])
   = Head 201
       ([js ''access-control-allow-origin'' \<mapsto> Single (js ''*'')]
          ++ [js ''content-type'' \<mapsto> Single (js ''application/json'')])
       # map WriteChunk [js ''[1,2'', js '',3]''] @ [EndEmpty]"
    by simp
  from passthrough_response
      [where req = "\<lparr>req_method = js ''GET'', url = js ''/log-viewer.js'',
              originalUrl = js ''/log-viewer.js'', headers = Map.empty\<rparr>"
         and hset = Map.empty
         and up = "\<lparr>statusCode = Some 200, resHeaders = Map.empty\<rparr>"
         and decode = id
         and evs = "[Data (js ''let a;''), EndOfStream]"]
  have 2: "respond id Map.empty
       \<lparr>statusCode = Some 200, resHeaders = Map.empty\<rparr>
       \<lparr>req_method = js ''GET'', url = js ''/log-viewer.js'',
        originalUrl = js ''/log-viewer.js'', headers = Map.empty\<rparr>
       [Data (js ''let a;''), EndOfStream]
     = [Head 404 Map.empty, EndEmpty]"
    by simp
  from 1 2 show ?thesis
    by blast
qed

section \<open>Claims about the text scrubber\<close>

lemma split_on_nonempty: "\<exists>l ls. split_on sep cur s = l # ls"
  by (induction s arbitrary: cur) auto

lemma digit_not_space: "isDigit c \<Longrightarrow> \<not> isSpace c"
  unfolding isDigit_def isSpace_def by auto

lemma bar_gt_class:
  "js ''|'' = [124]" "js ''>'' = [62]"
  "\<not> isSpace 124" "\<not> isDigit 124" "\<not> isSpace 62" "\<not> isDigit 62"
  by (simp_all add: js_def isSpace_def isDigit_def)

lemma codeframeLine_nonempty: "codeframeLine l \<Longrightarrow> l \<noteq> []"
  by (auto simp: codeframeLine_def numberedLine_def quotedLine_def startsWith_def bar_gt_class)

lemma join_eq_Nil_iff:
  "\<forall>l\<in>set ls. l \<noteq> [] \<Longrightarrow> join sep ls = [] \<longleftrightarrow> ls = []"
  by (induction sep ls rule: join.induct) auto

lemma dropWhile_all: "list_all P xs \<Longrightarrow> dropWhile P (xs @ ys) = dropWhile P ys"
  by (simp add: list_all_iff)

lemma takeWhile_all: "list_all P xs \<Longrightarrow> takeWhile P (xs @ ys) = xs @ takeWhile P ys"
  by (simp add: list_all_iff)

text \<open>
  The two tests read as the regular expressions do: optional white space, one or more
  digits, optional white space and a bar at the start of the line; or optional white space
  and \<open>>\<close> at the start of the line.
\<close>

lemma list_all_takeWhile: "list_all P (takeWhile P xs)"
  by (induction xs) simp_all

lemma quotedLine_iff:
  "quotedLine l \<longleftrightarrow> (\<exists>ws rest. l = ws @ js ''>'' @ rest \<and> list_all isSpace ws)"
proof
  assume "quotedLine l"
  then obtain rest where "dropWhile isSpace l = js ''>'' @ rest"
    by (auto simp: quotedLine_def startsWith_iff)
  then have "takeWhile isSpace l @ js ''>'' @ rest = l"
    using takeWhile_dropWhile_id [of isSpace l] by simp
  then show "\<exists>ws rest. l = ws @ js ''>'' @ rest \<and> list_all isSpace ws"
    using list_all_takeWhile [of isSpace l] by metis
next
  assume "\<exists>ws rest. l = ws @ js ''>'' @ rest \<and> list_all isSpace ws"
  then obtain ws rest where "l = ws @ js ''>'' @ rest" and "list_all isSpace ws"
    by blast
  then show "quotedLine l"
    by (simp add: quotedLine_def startsWith_def dropWhile_all bar_gt_class)
qed

lemma numberedLine_iff:
  "numberedLine l \<longleftrightarrow>
     (\<exists>ws ds ws' rest. l = ws @ ds @ ws' @ js ''|'' @ rest
        \<and> list_all isSpace ws \<and> ds \<noteq> [] \<and> list_all isDigit ds \<and> list_all isSpace ws')"
proof
  assume n: "numberedLine l"
  define r where "r = dropWhile isSpace l"
  define r2 where "r2 = dropWhile isDigit r"
  from n obtain rest where ds: "takeWhile isDigit r \<noteq> []"
    and bar: "dropWhile isSpace r2 = js ''|'' @ rest"
    by (auto simp: numberedLine_def Let_def startsWith_iff r_def r2_def)
  have "l = takeWhile isSpace l @ r"
    by (simp add: r_def)
  also have "r = takeWhile isDigit r @ r2"
    by (simp add: r2_def)
  also have "r2 = takeWhile isSpace r2 @ js ''|'' @ rest"
    using bar takeWhile_dropWhile_id [of isSpace r2] by simp
  finally have "l = takeWhile isSpace l @ takeWhile isDigit r @ takeWhile isSpace r2
      @ js ''|'' @ rest" .
  then show "\<exists>ws ds ws' rest. l = ws @ ds @ ws' @ js ''|'' @ rest
        \<and> list_all isSpace ws \<and> ds \<noteq> [] \<and> list_all isDigit ds \<and> list_all isSpace ws'"
    using ds list_all_takeWhile [of isSpace l] list_all_takeWhile [of isDigit r]
      list_all_takeWhile [of isSpace r2]
    by blast
next
  assume "\<exists>ws ds ws' rest. l = ws @ ds @ ws' @ js ''|'' @ rest
        \<and> list_all isSpace ws \<and> ds \<noteq> [] \<and> list_all isDigit ds \<and> list_all isSpace ws'"
  then obtain ws ds ws' rest where l: "l = ws @ ds @ ws' @ js ''|'' @ rest"
    and ws: "list_all isSpace ws" and ds: "ds \<noteq> []" "list_all isDigit ds"
    and ws': "list_all isSpace ws'"
    by blast
  from ds obtain d ds' where dd: "ds = d # ds'" and d: "isDigit d"
    by (cases ds) auto
  have 1: "dropWhile isSpace l = ds @ ws' @ js ''|'' @ rest"
    using ws d by (simp add: l dropWhile_all dd digit_not_space)
  have nd: "list_all (\<lambda>c. \<not> isDigit c) ws'"
    using ws' digit_not_space by (auto simp: list_all_iff)
  have 2: "takeWhile isDigit (ws' @ js ''|'' @ rest) = []"
    using nd by (cases ws') (simp_all add: bar_gt_class)
  have 3: "dropWhile isDigit (ws' @ js ''|'' @ rest) = ws' @ js ''|'' @ rest"
    using nd by (cases ws') (simp_all add: bar_gt_class)
  have 4: "takeWhile isDigit (ds @ ws' @ js ''|'' @ rest) = ds"
    using ds(2) 2 by (simp add: takeWhile_all)
  have 5: "dropWhile isDigit (ds @ ws' @ js ''|'' @ rest) = ws' @ js ''|'' @ rest"
    using ds(2) 3 by (simp add: dropWhile_all)
  have 6: "dropWhile isSpace (ws' @ js ''|'' @ rest) = js ''|'' @ rest"
    using ws' by (simp add: dropWhile_all bar_gt_class)
  show "numberedLine l"
    using ds(1) by (simp add: numberedLine_def Let_def 1 4 5 6 startsWith_def)
qed

lemma at_class: "js ''at '' = [97, 116, 32]" "\<not> isSpace 97" "\<not> isDigit 97"
  by (simp_all add: js_def isSpace_def isDigit_def)

lemma stack_frame_not_codeframe:
  "list_all isSpace ws \<Longrightarrow> \<not> codeframeLine (ws @ js ''at '' @ rest)"
  by (simp add: codeframeLine_def numberedLine_def quotedLine_def startsWith_def
      dropWhile_all at_class bar_gt_class)

lemma shrinkError_string:
  "\<exists>firstLine rest. split_lines raw = firstLine # rest
     \<and> (firstLine \<noteq> [] \<longrightarrow>
          shrinkError (RawString raw) =
            (if filter codeframeLine (firstLine # rest) = [] then firstLine
             else firstLine @ newline @ newline
                    @ join newline (filter codeframeLine (firstLine # rest))))
     \<and> (firstLine = [] \<longrightarrow>
          shrinkError (RawString raw) = join newline (filter codeframeLine rest))"
proof -
  obtain firstLine rest where sp: "split_lines raw = firstLine # rest"
    using split_on_nonempty [of 10 "[]" raw] by (auto simp: split_lines_def)
  have frame: "join newline (filter codeframeLine ls) = [] \<longleftrightarrow> filter codeframeLine ls = []"
    for ls
    by (rule join_eq_Nil_iff) (simp add: codeframeLine_nonempty)
  have e: "\<not> codeframeLine []"
    using codeframeLine_nonempty by blast
  have "firstLine \<noteq> [] \<Longrightarrow> shrinkError (RawString raw) =
            (if filter codeframeLine (firstLine # rest) = [] then firstLine
             else firstLine @ newline @ newline
                    @ join newline (filter codeframeLine (firstLine # rest)))"
    using frame [of "firstLine # rest"] by (simp add: shrinkError_def sp Let_def)
  moreover have "firstLine = [] \<Longrightarrow>
       shrinkError (RawString raw) = join newline (filter codeframeLine rest)"
    using frame [of rest] e by (simp add: shrinkError_def sp Let_def)
  ultimately show ?thesis
    using sp by blast
qed

text \<open>
  C7, as stated, fails: for an input whose first line is empty and whose second line is
  a codeframe line, the result is the codeframe block alone, not the (empty) first line,
  a blank line and the block.
\<close>

theorem shrinkError_empty_first_line_counterexample:
  "shrinkError (RawString (newline @ js ''1 | x'')) = js ''1 | x''
   \<and> scrub_spec (newline @ js ''1 | x'') = newline @ newline @ js ''1 | x''
   \<and> shrinkError (RawString (newline @ js ''1 | x'')) \<noteq> scrub_spec (newline @ js ''1 | x'')"
  by (simp add: shrinkError_def scrub_spec_def split_lines_def newline_def codeframeLine_def
      numberedLine_def quotedLine_def startsWith_def js_def isSpace_def isDigit_def)

text \<open>
  C7, amended. The input is split into lines, of which there is at least one. When the
  first line is not empty, the result is the first line, followed, if there are codeframe
  lines, by a blank line and the codeframe lines joined by line feeds; when the first
  line is empty, the result is the codeframe block alone. A codeframe line is one that
  starts, after optional white space, with a line number, optional white space and a
  bar, or with \<open>>\<close>. Every other line is left out; a stack-frame line, that is optional
  white space followed by \<open>at ...\<close>, is never a codeframe line.
\<close>

theorem shrinkError_result:
  "\<exists>firstLine rest. split_lines raw = firstLine # rest
     \<and> (firstLine \<noteq> [] \<longrightarrow>
          shrinkError (RawString raw) =
            (if filter codeframeLine (firstLine # rest) = [] then firstLine
             else firstLine @ newline @ newline
                    @ join newline (filter codeframeLine (firstLine # rest))))
     \<and> (firstLine = [] \<longrightarrow>
          shrinkError (RawString raw) = join newline (filter codeframeLine rest))
     \<and> (list_all isSpace ws \<longrightarrow> \<not> codeframeLine (ws @ js ''at '' @ frame))"
  using shrinkError_string [of raw] stack_frame_not_codeframe [of ws frame]
  by blast

text \<open>A stack trace with one frame and a codeframe of two lines.\<close>

theorem shrinkError_result_witness:
  "shrinkError
     (RawString (js ''Error: boom'' @ newline @ js ''    at f (a.js:1:2)'' @ newline
                 @ js ''> 1 | x'' @ newline @ js ''  2 | y''))
     = js ''Error: boom'' @ newline @ newline @ js ''> 1 | x'' @ newline @ js ''  2 | y''
   \<and> list_all isSpace (js ''    '')
   \<and> \<not> codeframeLine (js ''    '' @ js ''at '' @ js ''f (a.js:1:2)'')"
proof -
  have sp: "split_lines (js ''Error: boom'' @ newline @ js ''    at f (a.js:1:2)'' @ newline
                 @ js ''> 1 | x'' @ newline @ js ''  2 | y'')
      = [js ''Error: boom'', js ''    at f (a.js:1:2)'', js ''> 1 | x'', js ''  2 | y'']"
    by (simp add: split_lines_def newline_def js_def)
  have cf: "filter codeframeLine
      [js ''Error: boom'', js ''    at f (a.js:1:2)'', js ''> 1 | x'', js ''  2 | y'']
      = [js ''> 1 | x'', js ''  2 | y'']"
    by (simp add: codeframeLine_def numberedLine_def quotedLine_def startsWith_def js_def
        isSpace_def isDigit_def)
  have ne: "js ''Error: boom'' \<noteq> []"
    by (simp add: js_def)
  have sps: "list_all isSpace (js ''    '')"
    by (simp add: js_def isSpace_def)
  from shrinkError_result
    [of "js ''Error: boom'' @ newline @ js ''    at f (a.js:1:2)'' @ newline
           @ js ''> 1 | x'' @ newline @ js ''  2 | y''"
        "js ''    ''" "js ''f (a.js:1:2)''"]
  obtain firstLine rest where
    s: "split_lines (js ''Error: boom'' @ newline @ js ''    at f (a.js:1:2)'' @ newline
                 @ js ''> 1 | x'' @ newline @ js ''  2 | y'') = firstLine # rest"
    and r: "firstLine \<noteq> [] \<longrightarrow>
      shrinkError (RawString (js ''Error: boom'' @ newline @ js ''    at f (a.js:1:2)''
           @ newline @ js ''> 1 | x'' @ newline @ js ''  2 | y'')) =
        (if filter codeframeLine (firstLine # rest) = [] then firstLine
         else firstLine @ newline @ newline
                @ join newline (filter codeframeLine (firstLine # rest)))"
    and a: "list_all isSpace (js ''    '') \<longrightarrow>
      \<not> codeframeLine (js ''    '' @ js ''at '' @ js ''f (a.js:1:2)'')"
    by blast
  from s sp have f: "firstLine = js ''Error: boom''"
      "rest = [js ''    at f (a.js:1:2)'', js ''> 1 | x'', js ''  2 | y'']"
    by simp_all
  from r ne have "shrinkError (RawString (js ''Error: boom'' @ newline
           @ js ''    at f (a.js:1:2)'' @ newline @ js ''> 1 | x'' @ newline @ js ''  2 | y''))
      = js ''Error: boom'' @ newline @ newline @ js ''> 1 | x'' @ newline @ js ''  2 | y''"
    unfolding f cf by simp
  with a sps show ?thesis
    by blast
qed

section \<open>Claims about the session identity\<close>

lemma previewHost_kept:
  "h \<noteq> [] \<Longrightarrow> foldl previewHostMiddleware (Some h) reqs = Some h"
  by (induction reqs) (simp_all add: previewHostMiddleware_def)

lemma previewHost_unset:
  "previewHost = None \<or> previewHost = Some [] \<Longrightarrow>
     foldl previewHostMiddleware previewHost reqs =
       (case find (\<lambda>r. str_or_empty (headers r (js ''host'')) \<noteq> []) reqs of
          Some r \<Rightarrow> Some (str_or_empty (headers r (js ''host'')))
        | None \<Rightarrow> if reqs = [] then previewHost else Some [])"
proof (induction reqs arbitrary: previewHost)
  case Nil
  then show ?case by simp
next
  case (Cons r rs)
  from Cons.prems have step:
    "previewHostMiddleware previewHost r = Some (str_or_empty (headers r (js ''host'')))"
    by (auto simp: previewHostMiddleware_def)
  show ?case
  proof (cases "str_or_empty (headers r (js ''host'')) = []")
    case True
    with step have "previewHostMiddleware previewHost r = Some []"
      by simp
    with Cons.IH [of "Some []"] True show ?thesis
      by (simp split: option.splits)
  next
    case False
    with step previewHost_kept show ?thesis
      by simp
  qed
qed

text \<open>
  C8, as stated, fails: a first \<open>GET\<close> request with an empty \<open>Host\<close> header (or, under
  HTTP/1.0, with none) sets \<open>previewHost\<close> to the empty string, which the test
  \<open>!previewHost\<close> takes for unset, and the second request writes the variable again.
\<close>

theorem previewHost_overwritten_counterexample:
  "previewHostAfter
     [\<lparr>req_method = js ''GET'', url = js ''/'', originalUrl = js ''/'',
       headers = [js ''host'' \<mapsto> []]\<rparr>]
     = Some []
   \<and> previewHostAfter
     [\<lparr>req_method = js ''GET'', url = js ''/'', originalUrl = js ''/'',
       headers = [js ''host'' \<mapsto> []]\<rparr>,
      \<lparr>req_method = js ''GET'', url = js ''/'', originalUrl = js ''/'',
       headers = [js ''host'' \<mapsto> js ''preview-abc123.example.dev'']\<rparr>]
     = Some (js ''preview-abc123.example.dev'')"
  by (simp add: previewHostAfter_def previewHostMiddleware_def str_or_empty_def js_def)

text \<open>
  C8, amended. Once \<open>previewHost\<close> holds a non-empty string no request changes it.
  Of the requests that reach the middleware, the first whose \<open>Host\<close> header is present
  and not empty sets it, and it keeps that value; as long as there has been no such
  request it is the empty string, or \<open>null\<close> when no request has reached the middleware
  at all.
\<close>

theorem previewHost_first_nonempty_host_wins:
  "(h \<noteq> [] \<longrightarrow> foldl previewHostMiddleware (Some h) reqs = Some h)
   \<and> previewHostAfter reqs =
       (case find (\<lambda>r. str_or_empty (headers r (js ''host'')) \<noteq> []) reqs of
          Some r \<Rightarrow> Some (str_or_empty (headers r (js ''host'')))
        | None \<Rightarrow> if reqs = [] then None else Some [])"
  using previewHost_kept [of h reqs] previewHost_unset [of None reqs]
  by (simp add: previewHostAfter_def)

text \<open>
  A request without \<open>Host\<close>, then two requests of different hosts: the first host
  given stays.
\<close>

theorem previewHost_first_nonempty_host_wins_witness:
  "js ''preview-abc123.example.dev'' \<noteq> []
   \<and> foldl previewHostMiddleware (Some (js ''preview-abc123.example.dev''))
       [\<lparr>req_method = js ''GET'', url = js ''/'', originalUrl = js ''/'',
         headers = [js ''host'' \<mapsto> js ''other.example.dev'']\<rparr>]
     = Some (js ''preview-abc123.example.dev'')
   \<and> previewHostAfter
       [\<lparr>req_method = js ''GET'', url = js ''/'', originalUrl = js ''/'', headers = Map.empty\<rparr>,
        \<lparr>req_method = js ''GET'', url = js ''/'', originalUrl = js ''/'',
         headers = [js ''host'' \<mapsto> js ''preview-abc123.example.dev'']\<rparr>,
        \<lparr>req_method = js ''GET'', url = js ''/'', originalUrl = js ''/'',
         headers = [js ''host'' \<mapsto> js ''other.example.dev'']\<rparr>]
     = Some (js ''preview-abc123.example.dev'')"
proof -
  have ne: "js ''preview-abc123.example.dev'' \<noteq> []"
    by (simp add: js_def)
  show ?thesis
    using ne
      previewHost_first_nonempty_host_wins
        [of "js ''preview-abc123.example.dev''"
          "[\<lparr>req_method = js ''GET'', url = js ''/'', originalUrl = js ''/'',
             headers = [js ''host'' \<mapsto> js ''other.example.dev'']\<rparr>]"]
      previewHost_first_nonempty_host_wins
        [of "js ''preview-abc123.example.dev''"
          "[\<lparr>req_method = js ''GET'', url = js ''/'', originalUrl = js ''/'', headers = Map.empty\<rparr>,
            \<lparr>req_method = js ''GET'', url = js ''/'', originalUrl = js ''/'',
             headers = [js ''host'' \<mapsto> js ''preview-abc123.example.dev'']\<rparr>,
            \<lparr>req_method = js ''GET'', url = js ''/'', originalUrl = js ''/'',
             headers = [js ''host'' \<mapsto> js ''other.example.dev'']\<rparr>]"]
    by (simp add: str_or_empty_def js_def)
qed

section \<open>Claims about the process supervisor\<close>

lemma active_snoc: "active (tr @ [e]) = after_event (active tr) e"
  by (simp add: active_def)

lemma restartDevServer_fields:
  "trace (restartDevServer s) =
     trace s @ (case viteProcess s of Some p \<Rightarrow> [Kill p SIGTERM] | None \<Rightarrow> []) @ [Spawn (spawned s)]"
  "viteProcess (restartDevServer s) = Some (spawned s)"
  "spawned (restartDevServer s) = Suc (spawned s)"
  by (simp_all add: restartDevServer_def startDevServer_def stopDevServer_def
      split: option.splits)

lemma supervised_boot: "supervised (boot env)"
  by (simp add: supervised_def boot_def initial_def startDevServer_def active_def)

lemma restartDevServer_active:
  "supervised s \<Longrightarrow> active (trace (restartDevServer s)) = {spawned s}"
  by (cases "viteProcess s")
     (simp_all add: restartDevServer_fields supervised_def active_snoc
        active_snoc [of "tr @ [e]" for tr e, simplified])

lemma supervised_restart: "supervised s \<Longrightarrow> supervised (restartDevServer s)"
  using restartDevServer_active [of s]
  by (simp add: supervised_def restartDevServer_fields)

lemma supervised_serverState: "supervised (serverState env n)"
  by (induction n) (simp_all add: serverState_def supervised_boot supervised_restart)

text \<open>
  C9. A restart is a stop followed by a start. Its trace is the old trace, then
  \<open>SIGTERM\<close> to the process in \<open>viteProcess\<close> if there is one, then the spawn of the
  replacement, which becomes the process in \<open>viteProcess\<close>. In every state the server
  reaches the replacement is another process than the one signalled, and after the
  restart it is the only process spawned and not signalled.
\<close>

theorem restartDevServer_signal_before_spawn:
  "restartDevServer s = startDevServer (stopDevServer s)
   \<and> trace (restartDevServer s) =
       trace s @ (case viteProcess s of Some p \<Rightarrow> [Kill p SIGTERM] | None \<Rightarrow> [])
         @ [Spawn (spawned s)]
   \<and> viteProcess (restartDevServer s) = Some (spawned s)
   \<and> viteProcess (serverState env n) \<noteq> Some (spawned (serverState env n))
   \<and> active (trace (restartDevServer (serverState env n))) = {spawned (serverState env n)}"
proof (intro conjI)
  show "restartDevServer s = startDevServer (stopDevServer s)"
    by (simp add: restartDevServer_def)
  show "trace (restartDevServer s) =
       trace s @ (case viteProcess s of Some p \<Rightarrow> [Kill p SIGTERM] | None \<Rightarrow> [])
         @ [Spawn (spawned s)]"
    by (rule restartDevServer_fields)
  show "viteProcess (restartDevServer s) = Some (spawned s)"
    by (rule restartDevServer_fields)
  show "viteProcess (serverState env n) \<noteq> Some (spawned (serverState env n))"
    using supervised_serverState [of env n] by (auto simp: supervised_def)
  show "active (trace (restartDevServer (serverState env n))) = {spawned (serverState env n)}"
    by (rule restartDevServer_active [OF supervised_serverState])
qed

text \<open>The specification's example of two restarts in a row, in development.\<close>

lemma two_restarts:
  "trace (serverState (js ''development'') 2)
     = [Spawn 0, Kill 0 SIGTERM, Spawn 1, Kill 1 SIGTERM, Spawn 2]"
  by (simp add: serverState_def boot_def initial_def restartDevServer_def startDevServer_def
      stopDevServer_def numeral_2_eq_2)

end
